theory Spec2Isabelle
  imports Complex_Main "HOL-Library.Sublist"
begin

section \<open>Strings of the host language\<close>

text \<open>
  Text is modelled as \<^typ>\<open>string\<close>: a list of code units below 256 (the one text
  modelled with all its code units is the sender's letter, below). The named characters
  are the ones the sources mention by escape.
\<close>

abbreviation BSL :: char where "BSL \<equiv> CHR 0x5C"
abbreviation DQT :: char where "DQT \<equiv> CHR 0x22"
abbreviation SQT :: char where "SQT \<equiv> CHR 0x27"
abbreviation TAB :: char where "TAB \<equiv> CHR 0x09"
abbreviation NLN :: char where "NLN \<equiv> CHR 0x0A"
abbreviation CRT :: char where "CRT \<equiv> CHR 0x0D"
abbreviation ESC :: char where "ESC \<equiv> CHR 0x1B"

definition charCode :: "char \<Rightarrow> nat" where
  "charCode c = of_char c"

text \<open>
  The letter given to the control-character sender is upper-cased, and upper-casing
  reaches beyond the units below 256: this one text is modelled with the code units of
  the source's strings, each a natural number (below 65536 in the source). \<open>units\<close>
  gives the code units of a text of the other kind.
\<close>

definition units :: "string \<Rightarrow> nat list" where
  "units s = map charCode s"

text \<open>
  \<open>String.prototype.toUpperCase\<close>. The units listed are those below 256 and the two
  further units whose capital is an ASCII letter, U+0131 (305, capital \<open>I\<close>) and
  U+017F (383, capital \<open>S\<close>). Of these the ASCII letters and the Latin-1 letters move
  down by 32, the sharp s (223) becomes \<open>SS\<close>, the micro sign (181) and the y with
  diaeresis (255) get their capitals beyond 255, and every other listed unit stays. The
  capitals of all other text come from the platform's table, which is the parameter
  \<open>other\<close>: it is applied to each longest run of units that are not listed.
\<close>

definition listed :: "nat \<Rightarrow> bool" where
  "listed n = (n < 256 \<or> n = 305 \<or> n = 383)"

definition upper_unit :: "nat \<Rightarrow> nat list" where
  "upper_unit n =
     (if 97 \<le> n \<and> n \<le> 122 then [n - 32]
      else if n = 181 then [924]
      else if n = 223 then [83, 83]
      else if 224 \<le> n \<and> n \<le> 254 \<and> n \<noteq> 247 then [n - 32]
      else if n = 255 then [376]
      else if n = 305 then [73]
      else if n = 383 then [83]
      else [n])"

function toUpperCase :: "(nat list \<Rightarrow> nat list) \<Rightarrow> nat list \<Rightarrow> nat list" where
  "toUpperCase other [] = []"
| "toUpperCase other (c # cs) =
     (if listed c then upper_unit c @ toUpperCase other cs
      else other (c # takeWhile (\<lambda>u. \<not> listed u) cs)
           @ toUpperCase other (dropWhile (\<lambda>u. \<not> listed u) cs))"
  by pat_completeness auto
termination
  by (relation "measure (\<lambda>(other, s). length s)")
     (auto simp: less_Suc_eq_le length_dropWhile_le)

section \<open>Errors\<close>

text \<open>
  Every \<open>throw new Error(...)\<close> of the sources is one constructor; the argument is the
  message where the source builds one from the bridge's message. \<open>Unclassified\<close> is
  an error on its way to the \<open>catch\<close> block around it: the one a bridge call rejects
  with, or one thrown inside a \<open>try\<close> block. \<open>message\<close> is the \<open>message\<close> property
  that a \<open>catch\<close> block reads.
\<close>

datatype error =
    InvalidControlCharacter
  | SessionNotFound string
  | HostApplicationUnavailable string
  | BridgeInvocationFailure string
  | Unclassified string


section \<open>Control-character sender: the code computed from the letter\<close>

text \<open>\<open>/^[A-Z]$/.test(letter)\<close>: exactly one unit, between \<open>A\<close> and \<open>Z\<close>.\<close>

definition test_A_Z :: "nat list \<Rightarrow> bool" where
  "test_A_Z s = (case s of [c] \<Rightarrow> 65 \<le> c \<and> c \<le> 90 | _ \<Rightarrow> False)"

text \<open>\<open>letter.charCodeAt(0)\<close>; the source reads it only after the test above passed.\<close>

definition charCodeAt0 :: "nat list \<Rightarrow> int option" where
  "charCodeAt0 s = (case s of [] \<Rightarrow> None | c # _ \<Rightarrow> Some (int c))"

text \<open>
  The first half of \<open>SendControlCharacter.send\<close>, up to the point where
  \<open>controlCode\<close> is assigned or the validation throws.
\<close>

definition controlCode :: "(nat list \<Rightarrow> nat list) \<Rightarrow> nat list \<Rightarrow> error + int" where
  "controlCode other letter =
     (if toUpperCase other letter = units '']'' then Inr 29
      else if toUpperCase other letter = units ''ESCAPE''
            \<or> toUpperCase other letter = units ''ESC''
      then Inr 27
      else
        let letter' = toUpperCase other letter in
        if \<not> test_A_Z letter' then Inl InvalidControlCharacter
        else (case charCodeAt0 letter' of
                Some n \<Rightarrow> Inr (n - 64)
              | None \<Rightarrow> Inl InvalidControlCharacter))"

section \<open>Script encoder\<close>

text \<open>
  \<open>str.replace(/c/g, r)\<close> for a pattern that is one character: every occurrence is
  replaced, left to right, and the replacement text is not scanned again.
\<close>

definition replace_char :: "char \<Rightarrow> string \<Rightarrow> string \<Rightarrow> string" where
  "replace_char c r s = concat (map (\<lambda>x. if x = c then r else [x]) s)"

text \<open>
  \<open>str.replace(/[...]/g, f)\<close> for a character class \<open>p\<close> and a replacer function
  \<open>f\<close> of the matched character.
\<close>

definition replace_class :: "(char \<Rightarrow> bool) \<Rightarrow> (char \<Rightarrow> string) \<Rightarrow> string \<Rightarrow> string" where
  "replace_class p f s = concat (map (\<lambda>x. if p x then f x else [x]) s)"

text \<open>\<open>n.toString(16)\<close>: lower-case digits, no leading zero.\<close>

definition hex_digit :: "nat \<Rightarrow> char" where
  "hex_digit d = ''0123456789abcdef'' ! (d mod 16)"

fun toString16 :: "nat \<Rightarrow> string" where
  "toString16 n = (if n < 16 then [hex_digit n] else toString16 (n div 16) @ [hex_digit (n mod 16)])"

declare toString16.simps [simp del]

text \<open>\<open>s.padStart(k, '0')\<close>.\<close>

definition padStart0 :: "nat \<Rightarrow> string \<Rightarrow> string" where
  "padStart0 k s = replicate (k - length s) (CHR ''0'') @ s"

text \<open>The negated class of the last replacement: not between 0x20 and 0x7E.\<close>

definition not_printable :: "char \<Rightarrow> bool" where
  "not_printable c = (\<not> (0x20 \<le> charCode c \<and> charCode c \<le> 0x7E))"

text \<open>
  The replacer of the last replacement: a backslash, \<open>u\<close>, and
  \<open>char.charCodeAt(0).toString(16).padStart(4, '0')\<close>.
\<close>

definition u_escape :: "char \<Rightarrow> string" where
  "u_escape c = [BSL, CHR ''u''] @ padStart0 4 (toString16 (charCode c))"

text \<open>\<open>str.includes(newline)\<close>.\<close>

definition includes_newline :: "string \<Rightarrow> bool" where
  "includes_newline s = (NLN \<in> set s)"

text \<open>
  \<open>str.split(newline)\<close>. The result of splitting on a non-empty separator always has a
  first element, so it is given as that element and the list of the following ones;
  \<open>splitLines\<close> is the array itself.
\<close>

fun split_first :: "string \<Rightarrow> string \<times> string list" where
  "split_first [] = ([], [])"
| "split_first (c # cs) =
     (case split_first cs of
        (l, ls) \<Rightarrow> if c = NLN then ([], l # ls) else (c # l, ls))"

definition splitLines :: "string \<Rightarrow> string list" where
  "splitLines s = (case split_first s of (l, ls) \<Rightarrow> l # ls)"

text \<open>\<open>CommandExecutor.escapeAppleScriptString\<close>: three replacements in this order.\<close>

definition escapeAppleScriptString :: "string \<Rightarrow> string" where
  "escapeAppleScriptString str =
     replace_char TAB [BSL, CHR ''t'']
       (replace_char DQT [BSL, DQT]
         (replace_char BSL [BSL, BSL] str))"

text \<open>
  \<open>CommandExecutor.prepareMultilineCommand\<close>: the first line quoted, then for each
  following line the text \<open> & return & "\<close>, the escaped line and a closing quote.
\<close>

definition prepareMultilineCommand :: "string \<Rightarrow> string" where
  "prepareMultilineCommand str =
     (case split_first str of
        (line0, lines) \<Rightarrow>
          [DQT] @ escapeAppleScriptString line0 @ [DQT] @
          concat (map (\<lambda>l. '' & return & '' @ [DQT] @ escapeAppleScriptString l @ [DQT]) lines))"

text \<open>\<open>CommandExecutor.escapeForAppleScript\<close>.\<close>

definition escapeForAppleScript :: "string \<Rightarrow> string" where
  "escapeForAppleScript str =
     (if includes_newline str then prepareMultilineCommand str
      else
        replace_class not_printable u_escape
          (replace_char SQT [SQT, BSL, SQT, SQT]
            (replace_char DQT [BSL, DQT]
              (replace_char BSL [BSL, BSL] str))))"

text \<open>\<open>lines.join(sep)\<close>.\<close>

fun joinWith :: "string \<Rightarrow> string list \<Rightarrow> string" where
  "joinWith sep [] = []"
| "joinWith sep [l] = l"
| "joinWith sep (l # ls) = l @ sep @ joinWith sep ls"

section \<open>A compliant host's reading of the encoder's output\<close>

text \<open>
  The host scripting language reads a double-quoted literal up to the first quote that
  is not escaped, turning backslash escapes into the character they name. An expression
  of the encoder's shape is a literal followed by any number of joins
  \<open> & return & \<close> with a further literal; its value is the decoded segments joined
  by the host's line-break value. This reading is the reference the encoder is compared
  with; it is not code of the sources.
\<close>

definition unescape_char :: "char \<Rightarrow> char option" where
  "unescape_char d =
     (if d = BSL then Some BSL
      else if d = DQT then Some DQT
      else if d = CHR ''t'' then Some TAB
      else if d = CHR ''n'' then Some NLN
      else if d = CHR ''r'' then Some CRT
      else None)"

text \<open>Reads a literal after its opening quote: the decoded text and what follows the closing quote.\<close>

fun host_literal :: "string \<Rightarrow> (string \<times> string) option" where
  "host_literal [] = None"
| "host_literal (c # cs) =
     (if c = DQT then Some ([], cs)
      else if c = BSL then
        (case cs of
           [] \<Rightarrow> None
         | d # ds \<Rightarrow>
             (case unescape_char d of
                None \<Rightarrow> None
              | Some e \<Rightarrow>
                  (case host_literal ds of
                     None \<Rightarrow> None
                   | Some (v, rest) \<Rightarrow> Some (e # v, rest))))
      else
        (case host_literal cs of
           None \<Rightarrow> None
         | Some (v, rest) \<Rightarrow> Some (c # v, rest)))"

lemma host_literal_shorter: "host_literal s = Some (v, rest) \<Longrightarrow> length rest < length s"
proof (induction s arbitrary: v rest rule: host_literal.induct)
  case 1
  then show ?case by simp
next
  case (2 c cs)
  then show ?case
    by (fastforce split: if_splits list.splits option.splits)
qed

function host_segments :: "string \<Rightarrow> string list option" where
  "host_segments e =
     (case e of
        [] \<Rightarrow> None
      | c # cs \<Rightarrow>
          if c \<noteq> DQT then None
          else
            (case host_literal cs of
               None \<Rightarrow> None
             | Some (v, rest) \<Rightarrow>
                 if rest = [] then Some [v]
                 else if prefix '' & return & '' rest then
                   (case host_segments (drop 12 rest) of
                      None \<Rightarrow> None
                    | Some vs \<Rightarrow> Some (v # vs))
                 else None))"
  by pat_completeness auto
termination
  by (relation "measure length") (auto dest: host_literal_shorter)

declare host_segments.simps [simp del]

text \<open>The number of joins in an expression the host accepts, and the expression's value.\<close>

definition join_count :: "string \<Rightarrow> nat option" where
  "join_count e = map_option (\<lambda>vs. length vs - 1) (host_segments e)"

definition host_value :: "string \<Rightarrow> string option" where
  "host_value e = map_option (joinWith [CRT]) (host_segments e)"

section \<open>Properties of the multi-line encoder\<close>

definition esc1 :: "char \<Rightarrow> string" where
  "esc1 c = (if c = BSL then [BSL, BSL] else if c = DQT then [BSL, DQT]
             else if c = TAB then [BSL, CHR ''t''] else [c])"

lemma replace_char_Nil [simp]: "replace_char c r [] = []"
  by (simp add: replace_char_def)

lemma replace_char_Cons:
  "replace_char c r (x # xs) = (if x = c then r else [x]) @ replace_char c r xs"
  by (simp add: replace_char_def)

lemma replace_char_append:
  "replace_char c r (xs @ ys) = replace_char c r xs @ replace_char c r ys"
  by (simp add: replace_char_def)

lemma escapeAppleScriptString_Nil [simp]: "escapeAppleScriptString [] = []"
  by (simp add: escapeAppleScriptString_def)

lemma escapeAppleScriptString_Cons:
  "escapeAppleScriptString (c # cs) = esc1 c @ escapeAppleScriptString cs"
  by (simp add: escapeAppleScriptString_def esc1_def replace_char_Cons replace_char_append)

lemma host_literal_escaped:
  "host_literal (escapeAppleScriptString l @ DQT # rest) = Some (l, rest)"
  by (induction l) (simp_all add: escapeAppleScriptString_Cons esc1_def unescape_char_def)

lemma host_segments_lines:
  "host_segments ([DQT] @ escapeAppleScriptString l0 @ [DQT] @
      concat (map (\<lambda>l. '' & return & '' @ [DQT] @ escapeAppleScriptString l @ [DQT]) ls))
   = Some (l0 # ls)"
proof (induction ls arbitrary: l0)
  case Nil
  show ?case
    by (subst host_segments.simps) (simp add: host_literal_escaped)
next
  case (Cons l1 ls)
  show ?case
    by (subst host_segments.simps) (simp add: host_literal_escaped Cons.IH [simplified])
qed

lemma length_split_first: "length (snd (split_first s)) = count_list s NLN"
  by (induction s) (auto split: prod.splits)

text \<open>
  Claim C6. For every input, the expression built by \<open>prepareMultilineCommand\<close> is
  accepted by a compliant host, its decoded segments are exactly the lines of the input
  (the input split at its line breaks), the number of joins in it is the number of line
  breaks of the input, and its value is those lines joined by the host's line break.
\<close>

theorem multiline_encoding_roundtrip:
  "host_segments (prepareMultilineCommand str) = Some (splitLines str) \<and>
   join_count (prepareMultilineCommand str) = Some (count_list str NLN) \<and>
   host_value (prepareMultilineCommand str) = Some (joinWith [CRT] (splitLines str))"
proof -
  obtain l0 ls where sp: "split_first str = (l0, ls)" by (cases "split_first str")
  have "prepareMultilineCommand str =
      [DQT] @ escapeAppleScriptString l0 @ [DQT] @
      concat (map (\<lambda>l. '' & return & '' @ [DQT] @ escapeAppleScriptString l @ [DQT]) ls)"
    by (simp only: prepareMultilineCommand_def sp prod.case)
  then have seg: "host_segments (prepareMultilineCommand str) = Some (l0 # ls)"
    by (simp only: host_segments_lines)
  have "length ls = count_list str NLN"
    using length_split_first [of str] sp by simp
  then show ?thesis
    using seg sp by (simp add: join_count_def host_value_def splitLines_def)
qed

theorem multiline_encoding_roundtrip_witness:
  "host_segments (prepareMultilineCommand [CHR ''a'', DQT, NLN, TAB, CHR ''b'', NLN])
     = Some [[CHR ''a'', DQT], [TAB, CHR ''b''], []] \<and>
   join_count (prepareMultilineCommand [CHR ''a'', DQT, NLN, TAB, CHR ''b'', NLN]) = Some 2"
  using multiline_encoding_roundtrip [of "[CHR ''a'', DQT, NLN, TAB, CHR ''b'', NLN]"]
  by (simp add: splitLines_def)

section \<open>Properties of the single-line encoder\<close>

text \<open>
  The escaping as the specification words it, one character at a time: what each
  character of the input becomes. \<open>spec_hex4\<close> is the four-digit, zero-padded,
  lower-case hexadecimal numeral of a code.
\<close>

definition spec_hex4 :: "nat \<Rightarrow> string" where
  "spec_hex4 n = [hex_digit (n div 4096), hex_digit (n div 256), hex_digit (n div 16), hex_digit n]"

definition spec_escape_char :: "char \<Rightarrow> string" where
  "spec_escape_char c =
     (if c = BSL then [BSL, BSL]
      else if c = DQT then [BSL, DQT]
      else if c = SQT then [SQT, BSL, SQT, SQT]
      else if charCode c < 0x20 \<or> 0x7E < charCode c then [BSL, CHR ''u''] @ spec_hex4 (charCode c)
      else [c])"

lemma charCode_less: "charCode c < 256"
  by (simp add: charCode_def)

lemma hex_digit_mod: "hex_digit (n mod 16) = hex_digit n"
  by (simp add: hex_digit_def)

lemma toString16_small: "n < 16 \<Longrightarrow> toString16 n = [hex_digit n]"
  by (simp add: toString16.simps)

lemma toString16_big: "16 \<le> n \<Longrightarrow> toString16 n = toString16 (n div 16) @ [hex_digit n]"
  by (subst toString16.simps) (simp add: hex_digit_mod)

lemma padded_hex4:
  assumes "n < 65536"
  shows "padStart0 4 (toString16 n) = spec_hex4 n"
proof -
  have z: "hex_digit 0 = CHR ''0''" by (simp add: hex_digit_def)
  have r: "replicate 3 c = [c, c, c]" "replicate 2 c = [c, c]" for c :: char
    by (simp_all add: numeral_3_eq_3 numeral_2_eq_2)
  consider "n < 16" | "16 \<le> n \<and> n < 256" | "256 \<le> n \<and> n < 4096" | "4096 \<le> n"
    by linarith
  then show ?thesis
  proof cases
    case 1
    then show ?thesis
      by (simp add: toString16_small padStart0_def spec_hex4_def z r)
  next
    case 2
    then have "n div 16 < 16" by arith
    with 2 show ?thesis
      by (simp add: toString16_small toString16_big padStart0_def spec_hex4_def z r)
  next
    case 3
    then have "16 \<le> n div 16" "n div 16 div 16 < 16"
      by arith+
    with 3 show ?thesis
      by (simp add: toString16_small toString16_big padStart0_def spec_hex4_def z
          div_mult2_eq [symmetric] r)
  next
    case 4
    with assms have "16 \<le> n div 16" "16 \<le> n div 16 div 16" "n div 16 div 16 div 16 < 16"
      by arith+
    with 4 show ?thesis
      by (simp add: toString16_small toString16_big padStart0_def spec_hex4_def
          div_mult2_eq [symmetric])
  qed
qed

lemma replace_class_Nil [simp]: "replace_class p f [] = []"
  by (simp add: replace_class_def)

lemma replace_class_Cons:
  "replace_class p f (x # xs) = (if p x then f x else [x]) @ replace_class p f xs"
  by (simp add: replace_class_def)

lemma replace_class_append:
  "replace_class p f (xs @ ys) = replace_class p f xs @ replace_class p f ys"
  by (simp add: replace_class_def)

definition single_line_passes :: "string \<Rightarrow> string" where
  "single_line_passes str =
     replace_class not_printable u_escape
       (replace_char SQT [SQT, BSL, SQT, SQT]
         (replace_char DQT [BSL, DQT]
           (replace_char BSL [BSL, BSL] str)))"

lemma u_escape_hex4: "u_escape c = [BSL, CHR ''u''] @ spec_hex4 (charCode c)"
proof -
  have "charCode c < 65536" using charCode_less [of c] by simp
  then show ?thesis by (simp add: u_escape_def padded_hex4)
qed

lemma single_line_passes_Nil [simp]: "single_line_passes [] = []"
  by (simp add: single_line_passes_def)

lemma single_line_passes_Cons:
  "single_line_passes (c # cs) = spec_escape_char c @ single_line_passes cs"
  by (simp add: single_line_passes_def spec_escape_char_def replace_char_Cons
      replace_char_append replace_class_Cons replace_class_append not_printable_def
      charCode_def u_escape_hex4 not_le)

lemma single_line_passes_map: "single_line_passes s = concat (map spec_escape_char s)"
  by (induction s) (simp_all add: single_line_passes_Cons)

lemma hex_digit_lower: "hex_digit d \<in> set ''0123456789abcdef''"
proof -
  have "d mod 16 < length ''0123456789abcdef''" by simp
  then show ?thesis unfolding hex_digit_def by (rule nth_mem)
qed

text \<open>
  Claim C7. For every input without a line break, \<open>escapeForAppleScript\<close> replaces each
  character on its own: a backslash by two backslashes, a double quote by a backslash
  and the quote, a single quote by quote, backslash, quote, quote, a character outside
  0x20 to 0x7E by a backslash, \<open>u\<close> and the four-digit numeral of its code, and
  leaves every other character as it is. The numeral has exactly four digits, all from
  the lower-case hexadecimal digits.
\<close>

theorem single_line_escape:
  "(\<not> includes_newline str \<longrightarrow>
      escapeForAppleScript str = concat (map spec_escape_char str)) \<and>
   length (spec_hex4 n) = 4 \<and> set (spec_hex4 n) \<subseteq> set ''0123456789abcdef''"
proof -
  have "escapeForAppleScript str = concat (map spec_escape_char str)"
    if "\<not> includes_newline str"
    using that single_line_passes_map [of str]
    by (simp add: escapeForAppleScript_def single_line_passes_def)
  moreover have "length (spec_hex4 n) = 4"
    by (simp add: spec_hex4_def)
  moreover have "set (spec_hex4 n) \<subseteq> set ''0123456789abcdef''"
    using hex_digit_lower unfolding spec_hex4_def by (simp only: set_simps insert_subset) blast
  ultimately show ?thesis by blast
qed

theorem single_line_escape_witness:
  "\<not> includes_newline [CHR ''a'', BSL, DQT, SQT, TAB, CHR 0xE9] \<and>
   escapeForAppleScript [CHR ''a'', BSL, DQT, SQT, TAB, CHR 0xE9] =
     [CHR ''a'', BSL, BSL, BSL, DQT, SQT, BSL, SQT, SQT] @
     [BSL, CHR ''u'', CHR ''0'', CHR ''0'', CHR ''0'', CHR ''9''] @
     [BSL, CHR ''u'', CHR ''0'', CHR ''0'', CHR ''e'', CHR ''9'']"
  using single_line_escape [of "[CHR ''a'', BSL, DQT, SQT, TAB, CHR 0xE9]" 0]
  by (simp add: includes_newline_def spec_escape_char_def spec_hex4_def hex_digit_def
      charCode_def)

section \<open>The terminal application behind the automation bridge\<close>

text \<open>
  What a script can observe of one session, and what \<open>write text\<close> has delivered to
  it. \<open>busy_polls\<close> is the number of coming \<open>is processing\<close> queries that the session
  still answers with \<open>true\<close>. A session that does not respond raises an error when a
  script inspects it (a session that is closing), which the scripts'
  \<open>try ... on error ... end try\<close> ignores.
\<close>

datatype keys = Text string | Ascii int

record session =
  tty :: string
  contents :: string
  busy_polls :: nat
  responds :: bool
  received :: "keys list"

text \<open>
  The scripts of the sources, by shape: a command told to the current session of the
  current window, or the search through all windows, tabs and sessions for the session
  whose tty equals a quoted literal, with the command told to the first match. The
  search scripts differ in their last statement, run when nothing matched: \<open>error\<close>
  raises the message, \<open>return\<close> gives it back as the script's result. The message is
  \<open>Session with TTY\<close>, the target and the ending carried here.

  The third shape is the search as \<open>src/SendControlCharacter.ts\<close> and the first
  document of \<open>src/CommandExecutor.ts\<close> assemble it, \<open>prefix + " to " + command + suffix\<close>.
  The prefix ends in the line \<open>tell sess -- Found the target session\<close> and the suffix
  begins \<open>end tell -- end tell sess\<close>, joined with no line break: the command and the
  \<open>end tell\<close> that should close \<open>tell sess\<close> stand behind \<open>--\<close> and are comment.
  The block \<open>tell sess\<close> is then still open where \<open>end if\<close> follows (the script
  opens seven blocks and closes six), so the host refuses the script when it compiles it
  and runs none of it.
\<close>

datatype action = GetContents | GetTty | GetIsProcessing | Write keys

datatype missing = RaiseNotFound string | ReturnNotFound string

datatype script =
    TellCurrent action
  | TellByTty string action missing
  | TellAssembled string action string

text \<open>
  The application: its sessions in the order the nested \<open>repeat\<close> loops visit them,
  the position of the current session of the current window, and the scripts run so far.
\<close>

record iterm =
  sessions :: "session list"
  current :: nat
  calls :: "script list"

text \<open>The first session, in visiting order, that responds and whose tty is the target.\<close>

fun find_session :: "string \<Rightarrow> session list \<Rightarrow> nat option" where
  "find_session target [] = None"
| "find_session target (s # ss) =
     (if responds s \<and> tty s = target then Some 0
      else map_option Suc (find_session target ss))"

text \<open>A command told to session \<open>i\<close>: the text the bridge prints, and the application after.\<close>

definition perform :: "action \<Rightarrow> nat \<Rightarrow> iterm \<Rightarrow> string \<times> iterm" where
  "perform a i h =
     (case a of
        GetContents \<Rightarrow> (contents (sessions h ! i) @ [NLN], h)
      | GetTty \<Rightarrow> (tty (sessions h ! i) @ [NLN], h)
      | GetIsProcessing \<Rightarrow>
          ((if 0 < busy_polls (sessions h ! i) then ''true'' else ''false'') @ [NLN],
           h\<lparr>sessions := (sessions h)
                  [i := (sessions h ! i)\<lparr>busy_polls := busy_polls (sessions h ! i) - 1\<rparr>]\<rparr>)
      | Write k \<Rightarrow>
          ([], h\<lparr>sessions := (sessions h)
                  [i := (sessions h ! i)\<lparr>received := received (sessions h ! i) @ [k]\<rparr>]\<rparr>))"

text \<open>
  One run of the bridge (\<open>execPromise\<close> of \<open>osascript -e\<close>): \<open>Inr\<close> the printed
  result, \<open>Inl\<close> the message of the error the script raised, without the words the
  process layer puts around it (the message that \<open>exec\<close> builds also holds the
  command line, which is left out). The script is the one the host receives. The process
  layer puts the script between single quotes for the shell; that reading is given apart
  (\<open>handed_over\<close> below) and the dispatcher, whose scripts hold the command text,
  goes through it. The scripts of the buffer reader and of the sender vary in the path
  alone, and their functions call \<open>osascript\<close> directly: for them the path is one
  without an apostrophe. The host reads the target literal as in \<open>host_literal\<close>.
\<close>

definition osascript :: "script \<Rightarrow> iterm \<Rightarrow> (string + string) \<times> iterm" where
  "osascript sc h0 =
     (let h = h0\<lparr>calls := calls h0 @ [sc]\<rparr> in
      case sc of
        TellCurrent a \<Rightarrow>
          if current h < length (sessions h) \<and> responds (sessions h ! current h)
          then (case perform a (current h) h of (out, h') \<Rightarrow> (Inr out, h'))
          else (Inl ''current session of current window is not available'', h)
      | TellByTty lit a m \<Rightarrow>
          (case host_literal (lit @ [DQT]) of
             Some (target, []) \<Rightarrow>
               (case find_session target (sessions h) of
                  Some i \<Rightarrow> (case perform a i h of (out, h') \<Rightarrow> (Inr out, h'))
                | None \<Rightarrow>
                    (case m of
                       RaiseNotFound ending \<Rightarrow>
                         (Inl (''Session with TTY '' @ target @ ending), h)
                     | ReturnNotFound ending \<Rightarrow>
                         (Inr (''Session with TTY '' @ target @ ending @ [NLN]), h)))
           | _ \<Rightarrow> (Inl ''syntax error'', h))
      | TellAssembled lit a ending \<Rightarrow>
          (Inl ''syntax error: end tell expected before end if'', h))"

section \<open>Shared pieces of the components\<close>

text \<open>\<open>if (ttyPath)\<close> on an optional string: absent and empty are both false.\<close>

definition truthy :: "string option \<Rightarrow> bool" where
  "truthy p = (case p of None \<Rightarrow> False | Some t \<Rightarrow> t \<noteq> [])"

text \<open>The constructors' \<open>targetTtyPath || null\<close>.\<close>

definition or_null :: "string option \<Rightarrow> string option" where
  "or_null p = (if truthy p then p else None)"

text \<open>The escaping of the target path inside the search scripts: backslashes, then quotes.\<close>

definition escapeTty :: "string \<Rightarrow> string" where
  "escapeTty p = replace_char DQT [BSL, DQT] (replace_char BSL [BSL, BSL] p)"

text \<open>\<open>message.includes(t)\<close>.\<close>

definition includes_text :: "string \<Rightarrow> string \<Rightarrow> bool" where
  "includes_text msg t = sublist t msg"

text \<open>
  The \<open>catch\<close> blocks around the bridge call, alike in all components: three
  \<open>throw\<close> statements chosen by what the bridge's message includes, each prefixed by
  the component's own words.
\<close>

definition rethrow :: "string \<Rightarrow> string \<Rightarrow> error" where
  "rethrow what msg =
     (if includes_text msg ''Session with TTY'' then SessionNotFound (what @ msg)
      else if includes_text msg (''Application isn'' @ [BSL, SQT] @ ''t running'')
      then HostApplicationUnavailable
             (what @ ''iTerm2 application might not be running. Original error: '' @ msg)
      else BridgeInvocationFailure (what @ msg))"

text \<open>\<open>String.prototype.trim\<close> on code units below 256.\<close>

definition is_space :: "char \<Rightarrow> bool" where
  "is_space c = (charCode c \<in> {9, 10, 11, 12, 13, 32, 160})"

definition trim :: "string \<Rightarrow> string" where
  "trim s = rev (dropWhile is_space (rev (dropWhile is_space s)))"

section \<open>Control-character sender\<close>

text \<open>
  The script of \<open>SendControlCharacter.send\<close> in \<open>src/SendControlCharacter.ts\<close>:
  assembled from prefix and suffix when a path is given; its not-found message ends
  in a full stop.
\<close>

definition controlScript :: "string option \<Rightarrow> int \<Rightarrow> script" where
  "controlScript targetTtyPath code =
     (case or_null targetTtyPath of
        Some p \<Rightarrow> TellAssembled (escapeTty p) (Write (Ascii code)) '' not found.''
      | None \<Rightarrow> TellCurrent (Write (Ascii code)))"

text \<open>The script in the other variant of the sender, which writes the search out in full.\<close>

definition controlScript_search :: "string option \<Rightarrow> int \<Rightarrow> script" where
  "controlScript_search targetTtyPath code =
     (case or_null targetTtyPath of
        Some p \<Rightarrow> TellByTty (escapeTty p) (Write (Ascii code)) (RaiseNotFound '' not found'')
      | None \<Rightarrow> TellCurrent (Write (Ascii code)))"

text \<open>
  \<open>SendControlCharacter.send\<close>; the two variants have the same statements around
  their script.
\<close>

definition send_with ::
  "(string option \<Rightarrow> int \<Rightarrow> script) \<Rightarrow> (nat list \<Rightarrow> nat list) \<Rightarrow> string option \<Rightarrow> nat list \<Rightarrow> iterm
     \<Rightarrow> (error + unit) \<times> iterm" where
  "send_with script other targetTtyPath letter h =
     (case controlCode other letter of
        Inl e \<Rightarrow> (Inl e, h)
      | Inr code \<Rightarrow>
          (case osascript (script targetTtyPath code) h of
             (Inl msg, h') \<Rightarrow> (Inl (rethrow ''Failed to send control character: '' msg), h')
           | (Inr out, h') \<Rightarrow> (Inr (), h')))"

definition send ::
  "(nat list \<Rightarrow> nat list) \<Rightarrow> string option \<Rightarrow> nat list \<Rightarrow> iterm \<Rightarrow> (error + unit) \<times> iterm" where
  "send = send_with controlScript"

definition send_search ::
  "(nat list \<Rightarrow> nat list) \<Rightarrow> string option \<Rightarrow> nat list \<Rightarrow> iterm \<Rightarrow> (error + unit) \<times> iterm" where
  "send_search = send_with controlScript_search"

section \<open>Buffer reader\<close>

text \<open>
  The script of \<open>TtyOutputReader.retrieveBuffer\<close>. Its search ends in
  \<open>return "Session with TTY " & targetTTY & " not found"\<close>.
\<close>

definition bufferScript :: "string option \<Rightarrow> script" where
  "bufferScript ttyPath =
     (if truthy ttyPath
      then (case ttyPath of
              Some p \<Rightarrow> TellByTty (escapeTty p) GetContents (ReturnNotFound '' not found'')
            | None \<Rightarrow> TellCurrent GetContents)
      else TellCurrent GetContents)"

definition retrieveBuffer :: "string option \<Rightarrow> iterm \<Rightarrow> (error + string) \<times> iterm" where
  "retrieveBuffer ttyPath h =
     (case osascript (bufferScript ttyPath) h of
        (Inr finalContent, h') \<Rightarrow> (Inr (trim finalContent), h')
      | (Inl msg, h') \<Rightarrow> (Inl (rethrow ''Failed to retrieve buffer: '' msg), h'))"

text \<open>
  \<open>content.replace(pattern, placeholder)\<close> for a global pattern that cannot match the
  empty text: \<open>m\<close> gives the length of the match that starts at the head of the
  remaining text, if there is one. Matches are replaced left to right and the search
  goes on after each match.
\<close>

fun replace_matches :: "(string \<Rightarrow> nat option) \<Rightarrow> string \<Rightarrow> string \<Rightarrow> string" where
  "replace_matches m r [] = []"
| "replace_matches m r (c # cs) =
     (case m (c # cs) of
        Some (Suc t) \<Rightarrow> r @ replace_matches m r (drop t cs)
      | _ \<Rightarrow> c # replace_matches m r cs)"

text \<open>The class of the base64 alphabet: letters, digits, plus and slash.\<close>

definition is_b64 :: "char \<Rightarrow> bool" where
  "is_b64 c =
     (65 \<le> charCode c \<and> charCode c \<le> 90 \<or> 97 \<le> charCode c \<and> charCode c \<le> 122 \<or>
      48 \<le> charCode c \<and> charCode c \<le> 57 \<or> c = CHR ''+'' \<or> c = CHR ''/'')"

text \<open>
  \<open>base64Pattern\<close>: a hundred or more characters of the alphabet, as many as there
  are, then up to two equals signs.
\<close>

definition match_base64 :: "string \<Rightarrow> nat option" where
  "match_base64 xs =
     (let run = length (takeWhile is_b64 xs) in
      if 100 \<le> run
      then Some (run + length (takeWhile (\<lambda>c. c = CHR ''='') (take 2 (drop run xs))))
      else None)"

text \<open>
  \<open>imgcatPrefixPattern\<close>: the escape character and \<open>]1337;File=\<close>, one or more
  characters other than a colon, optionally a colon with one or more characters other
  than a line break, then a line break. The two repetitions are greedy and give
  characters back, longest first, until the rest of the pattern matches.
\<close>

fun imgcat_params :: "string \<Rightarrow> nat \<Rightarrow> nat option" where
  "imgcat_params cs 0 = None"
| "imgcat_params cs (Suc j) =
     (if Suc j < length cs \<and> cs ! Suc j = NLN then Some (Suc j + 1)
      else imgcat_params cs j)"

definition imgcat_tail :: "string \<Rightarrow> nat option" where
  "imgcat_tail r =
     (case r of
        [] \<Rightarrow> None
      | c # cs \<Rightarrow>
          (case (if c = CHR '':''
                 then imgcat_params cs (length (takeWhile (\<lambda>x. x \<noteq> NLN) cs))
                 else None) of
             Some t \<Rightarrow> Some (Suc t)
           | None \<Rightarrow> if c = NLN then Some 1 else None))"

fun imgcat_name :: "string \<Rightarrow> nat \<Rightarrow> nat option" where
  "imgcat_name r 0 = None"
| "imgcat_name r (Suc k) =
     (case imgcat_tail (drop (Suc k) r) of
        Some t \<Rightarrow> Some (Suc k + t)
      | None \<Rightarrow> imgcat_name r k)"

definition match_imgcat :: "string \<Rightarrow> nat option" where
  "match_imgcat xs =
     (if prefix (ESC # '']1337;File='') xs
      then map_option (\<lambda>t. 12 + t)
             (imgcat_name (drop 12 xs) (length (takeWhile (\<lambda>x. x \<noteq> CHR '':'') (drop 12 xs))))
      else None)"

text \<open>\<open>TtyOutputReader.filterBase64Content\<close>.\<close>

definition filterBase64Content :: "string \<Rightarrow> string" where
  "filterBase64Content content =
     (let filteredContent = replace_matches match_base64 ''[BASE64_IMAGE_CONTENT_FILTERED]'' content
      in replace_matches match_imgcat (''[IMGCAT_PREFIX_FILTERED]'' @ [NLN]) filteredContent)"

text \<open>
  \<open>lines.slice(start)\<close> for an integer \<open>start\<close>: a negative start counts from
  the end and stops at the beginning.
\<close>

definition slice_from :: "int \<Rightarrow> 'a list \<Rightarrow> 'a list" where
  "slice_from start xs =
     (let len = int (length xs);
          k = (if start < 0 then max (len + start) 0 else min start len)
      in drop (nat k) xs)"

text \<open>
  \<open>!linesOfOutput\<close> for an optional integer: absent and zero. (A count that is not a
  number is replaced by 25 before the reader is called.)
\<close>

definition falsy_number :: "int option \<Rightarrow> bool" where
  "falsy_number n = (case n of None \<Rightarrow> True | Some k \<Rightarrow> k = 0)"


text \<open>\<open>TtyOutputReader.call\<close> of the variant with the \<open>filterBase64\<close> parameter.\<close>

definition call_filtering ::
  "int option \<Rightarrow> string option \<Rightarrow> bool \<Rightarrow> iterm \<Rightarrow> (error + string) \<times> iterm" where
  "call_filtering linesOfOutput ttyPath filterBase64 h =
     (case retrieveBuffer ttyPath h of
        (Inl e, h') \<Rightarrow> (Inl e, h')
      | (Inr buffer, h') \<Rightarrow>
          (let processedBuffer = (if filterBase64 then filterBase64Content buffer else buffer) in
           if falsy_number linesOfOutput then (Inr processedBuffer, h')
           else
             (case linesOfOutput of
                None \<Rightarrow> (Inr processedBuffer, h')
              | Some n \<Rightarrow>
                  (Inr (joinWith [NLN] (slice_from (- n - 1) (splitLines processedBuffer))), h'))))"

section \<open>The process layer between the dispatcher and the bridge\<close>

text \<open>
  How an asynchronous function of the dispatcher ends: with a value, with an error
  thrown, not within the polls that the run is given (\<open>StillWaiting\<close>), or at a
  command line that the model of the shell below does not follow (\<open>NotFollowed\<close>).
  The application comes with it, as the run has left it.
\<close>

datatype 'a outcome = Finished 'a | Thrown error | StillWaiting | NotFollowed

definition finished :: "'a outcome \<Rightarrow> bool" where
  "finished out = (case out of Finished x \<Rightarrow> True | _ \<Rightarrow> False)"


text \<open>\<open>try { ... } catch (error) { throw handler(error) }\<close>.\<close>

definition catching :: "'a outcome \<times> iterm \<Rightarrow> (error \<Rightarrow> error) \<Rightarrow> 'a outcome \<times> iterm" where
  "catching m handler =
     (case m of
        (Thrown e, h) \<Rightarrow> (Thrown (handler e), h)
      | (other, h) \<Rightarrow> (other, h))"

text \<open>The result of the buffer reader's functions as an outcome.\<close>

definition of_result :: "(error + 'a) \<times> iterm \<Rightarrow> 'a outcome \<times> iterm" where
  "of_result m = (case m of (Inl e, h) \<Rightarrow> (Thrown e, h) | (Inr x, h) \<Rightarrow> (Finished x, h))"

text \<open>
  The components pass \<open>osascript -e '<script>'\<close> to \<open>exec\<close>, which has \<open>/bin/sh\<close>
  read it. The fixed text of the scripts written out in full has no apostrophe, so what
  the shell makes of a script is decided by the two pieces that vary, the target literal
  and the command text. \<open>sh_quoted\<close> reads a piece that begins between the single
  quotes and gives the text that reaches the host, if the piece also ends between them:
  between the quotes every character stands for itself up to the next apostrophe;
  outside them a backslash makes the next character stand for itself (and removes a
  line break), a letter, a digit or one of \<open>%+,-./:=@_\<close> stands for itself, and an
  apostrophe opens the quotes again. Anything else outside the quotes (a blank ends the
  argument, other characters are the shell's own syntax) is not followed here.
\<close>

definition sh_plain :: "char \<Rightarrow> bool" where
  "sh_plain c =
     (48 \<le> charCode c \<and> charCode c \<le> 57 \<or> 65 \<le> charCode c \<and> charCode c \<le> 90 \<or>
      97 \<le> charCode c \<and> charCode c \<le> 122 \<or> c \<in> set ''%+,-./:=@_'')"

fun sh_quoted :: "string \<Rightarrow> string option"
  and sh_unquoted :: "string \<Rightarrow> string option" where
  "sh_quoted [] = Some []"
| "sh_quoted (c # cs) =
     (if c = SQT then sh_unquoted cs else map_option ((#) c) (sh_quoted cs))"
| "sh_unquoted [] = None"
| "sh_unquoted (c # cs) =
     (if c = SQT then sh_quoted cs
      else if c = BSL then
        (case cs of
           [] \<Rightarrow> None
         | d # ds \<Rightarrow> if d = NLN then sh_unquoted ds else map_option ((#) d) (sh_unquoted ds))
      else if sh_plain c then map_option ((#) c) (sh_unquoted cs)
      else None)"

text \<open>The script that reaches the host, when the shell's reading is followed.\<close>

definition sh_action :: "action \<Rightarrow> action option" where
  "sh_action a =
     (case a of
        Write (Text s) \<Rightarrow> map_option (\<lambda>t. Write (Text t)) (sh_quoted s)
      | _ \<Rightarrow> Some a)"

definition handed_over :: "script \<Rightarrow> script option" where
  "handed_over sc =
     (case sc of
        TellCurrent a \<Rightarrow> map_option TellCurrent (sh_action a)
      | TellByTty lit a m \<Rightarrow>
          (case (sh_quoted lit, sh_action a) of
             (Some l, Some b) \<Rightarrow> Some (TellByTty l b m)
           | _ \<Rightarrow> None)
      | TellAssembled lit a ending \<Rightarrow>
          (case (sh_quoted lit, sh_action a) of
             (Some l, Some b) \<Rightarrow> Some (TellAssembled l b ending)
           | _ \<Rightarrow> None))"


section \<open>Command dispatcher: its scripts\<close>

text \<open>
  \<open>scriptCommand\<close> of \<open>CommandExecutor.executeCommand\<close>: the encoded command as an
  evaluated expression in parentheses when the command has a line break, as a quoted
  literal otherwise.
\<close>

definition scriptCommand :: "string \<Rightarrow> keys" where
  "scriptCommand command =
     (if includes_newline command
      then Text (''('' @ escapeForAppleScript command @ '')'')
      else Text ([DQT] @ escapeForAppleScript command @ [DQT]))"

text \<open>The commands on whose text the shell's reading is followed.\<close>

definition passes_shell :: "string \<Rightarrow> bool" where
  "passes_shell command = (sh_action (Write (scriptCommand command)) \<noteq> None)"

text \<open>
  \<open>src/CommandExecutor.ts\<close> holds two documents of the class. The scripts of the
  second are written out in full; the dispatch script's search ends in
  \<open>error "Session with TTY " & ...\<close>.
\<close>

definition commandScript :: "string option \<Rightarrow> string \<Rightarrow> script" where
  "commandScript targetTtyPath command =
     (case or_null targetTtyPath of
        Some p \<Rightarrow>
          TellByTty (escapeTty p) (Write (scriptCommand command)) (RaiseNotFound '' not found'')
      | None \<Rightarrow> TellCurrent (Write (scriptCommand command)))"




section \<open>Completion detector\<close>

text \<open>
  One call of \<open>tracker.getActiveProcess\<close>: no process, a process with its
  \<open>totalCPUPercent\<close>, or an exception.
\<close>

datatype probe = NoProcess | Active real | ProbeFailed

text \<open>
  The \<open>while (true)\<close> loop of \<open>isWaitingForUserInput\<close> run on the outcomes of its
  successive probes, one every 350 ms, starting with \<open>belowThresholdTime\<close> as given.
  The result is the value of the \<open>return\<close> statement reached and the number of probes
  made up to it; \<open>None\<close> when the loop is still polling after all the outcomes given.
\<close>

fun pollLoop :: "nat \<Rightarrow> probe list \<Rightarrow> (bool \<times> nat) option" where
  "pollLoop belowThresholdTime [] = None"
| "pollLoop belowThresholdTime (p # ps) =
     (case p of
        NoProcess \<Rightarrow> Some (True, 1)
      | ProbeFailed \<Rightarrow> Some (True, 1)
      | Active totalCPUPercent \<Rightarrow>
          if totalCPUPercent < 1 then
            (if 1000 \<le> belowThresholdTime + 350 then Some (True, 1)
             else map_option (apsnd Suc) (pollLoop (belowThresholdTime + 350) ps))
          else map_option (apsnd Suc) (pollLoop 0 ps))"

text \<open>
  How a block of the function ends: by a \<open>return\<close> with a value, or by an exception.
  A \<open>catch\<close> block that returns turns an exception into its own value; a
  \<open>finally\<close> block that returns replaces whatever came before.
\<close>

datatype completion = Returns bool | Throws

definition catch_return :: "completion \<Rightarrow> bool \<Rightarrow> completion" where
  "catch_return c v = (case c of Throws \<Rightarrow> Returns v | Returns b \<Rightarrow> Returns b)"

definition finally_return :: "completion \<Rightarrow> bool \<Rightarrow> completion" where
  "finally_return c v = Returns v"

text \<open>
  \<open>CommandExecutor.isWaitingForUserInput\<close>: \<open>opens\<close> tells whether
  \<open>openSync(ttyPath, 'r')\<close> succeeds. The outer \<open>catch\<close> returns \<open>true\<close>, and the
  \<open>finally\<close> block closes the descriptor and returns \<open>true\<close>.
\<close>

definition isWaitingForUserInput :: "bool \<Rightarrow> probe list \<Rightarrow> (completion \<times> nat) option" where
  "isWaitingForUserInput opens probes =
     (case (if opens
            then map_option (\<lambda>(b, n). (Returns b, n)) (pollLoop 0 probes)
            else Some (Throws, 0)) of
        None \<Rightarrow> None
      | Some (c, n) \<Rightarrow> Some (finally_return (catch_return c True) True, n))"

text \<open>
  The loop \<open>while (await this.isWaitingForUserInput(ttyPath) === false) sleep(100)\<close>
  of \<open>executeCommand\<close>, run on what each successive call meets (whether the tty opens
  and the probe outcomes). The result is the number of times the body ran; \<open>None\<close>
  when a call does not return on the outcomes given, or the loop goes on after all the
  calls given. An exception of a call leaves the loop.
\<close>

fun waitForPrompt :: "(bool \<times> probe list) list \<Rightarrow> nat option" where
  "waitForPrompt [] = None"
| "waitForPrompt ((opens, probes) # rest) =
     (case isWaitingForUserInput opens probes of
        None \<Rightarrow> None
      | Some (Throws, n) \<Rightarrow> Some 0
      | Some (Returns b, n) \<Rightarrow>
          if b = False then map_option Suc (waitForPrompt rest) else Some 0)"

section \<open>Command dispatcher\<close>





text \<open>
  The loop \<open>while (await this.isWaitingForUserInput(ttyPath) === false) sleep(100)\<close>
  on what its calls meet; the value is the number of times the body ran.
\<close>

definition awaitPrompt :: "(bool \<times> probe list) list \<Rightarrow> iterm \<Rightarrow> nat outcome \<times> iterm" where
  "awaitPrompt env h =
     (case waitForPrompt env of None \<Rightarrow> (StillWaiting, h) | Some n \<Rightarrow> (Finished n, h))"




section \<open>Request handler\<close>

text \<open>
  The first statement of the \<open>CallToolRequestSchema\<close> handler, from the optional
  \<open>ttyPath\<close> argument: in \<open>src/index.ts\<close> the path \<open>/dev/ttys001\<close> stands in for
  a missing one; in the other variant of the handler a missing path stays undefined.
\<close>

definition requestTtyPath :: "string option \<Rightarrow> string option" where
  "requestTtyPath arg = (if truthy arg then arg else Some ''/dev/ttys001'')"


text \<open>\<open>Number(linesOfOutput) || 25\<close> and \<open>filterBase64 !== false\<close>.\<close>

definition linesOrDefault :: "int option \<Rightarrow> int" where
  "linesOrDefault arg = (case arg of None \<Rightarrow> 25 | Some n \<Rightarrow> if n = 0 then 25 else n)"

definition filterOrDefault :: "bool option \<Rightarrow> bool" where
  "filterOrDefault arg = (arg \<noteq> Some False)"




text \<open>The cases \<open>read_terminal_output\<close> and \<open>send_control_character\<close> of \<open>src/index.ts\<close>.\<close>

definition read_terminal_output ::
  "int option \<Rightarrow> string option \<Rightarrow> bool option \<Rightarrow> iterm \<Rightarrow> (error + string) \<times> iterm" where
  "read_terminal_output linesArg ttyArg filterArg h =
     call_filtering (Some (linesOrDefault linesArg)) (requestTtyPath ttyArg)
       (filterOrDefault filterArg) h"







text \<open>
  The session a script names: the current session of the current window, or the session
  whose tty is the target literal as the host reads it.
\<close>

datatype sessionRef = Current | ByPath string

definition addressed :: "script \<Rightarrow> sessionRef option" where
  "addressed sc =
     (case sc of
        TellCurrent a \<Rightarrow> Some Current
      | TellByTty lit a m \<Rightarrow>
          (case host_literal (lit @ [DQT]) of
             Some (target, []) \<Rightarrow> Some (ByPath target)
           | _ \<Rightarrow> None)
      | TellAssembled lit a ending \<Rightarrow>
          (case host_literal (lit @ [DQT]) of
             Some (target, []) \<Rightarrow> Some (ByPath target)
           | _ \<Rightarrow> None))"

text \<open>
  The specification's words for an operation's target: every script handed to the
  bridge between the application \<open>h\<close> and the application \<open>h'\<close> names \<open>r\<close>.
\<close>

definition spec_targets :: "sessionRef \<Rightarrow> iterm \<Rightarrow> iterm \<Rightarrow> bool" where
  "spec_targets r h h' =
     (take (length (calls h)) (calls h') = calls h \<and>
      list_all (\<lambda>sc. addressed sc = Some r) (drop (length (calls h)) (calls h')))"

section \<open>An application with two sessions\<close>

text \<open>
  The current session is on \<open>/dev/ttys000\<close>; a second session is on
  \<open>/dev/ttys001\<close> and shows four lines.
\<close>

definition example_focused :: session where
  "example_focused = \<lparr>tty = ''/dev/ttys000'', contents = ''focused'', busy_polls = 0,
     responds = True, received = []\<rparr>"

definition example_other :: session where
  "example_other = \<lparr>tty = ''/dev/ttys001'',
     contents = ''a'' @ [NLN] @ ''b'' @ [NLN] @ ''c'' @ [NLN] @ ''d'', busy_polls = 2,
     responds = True, received = []\<rparr>"

definition example_app :: iterm where
  "example_app = \<lparr>sessions = [example_focused, example_other], current = 0, calls = []\<rparr>"

section \<open>Properties of the control-character sender\<close>

text \<open>
  The specification's words for the letters: the ASCII letters, the capital of an ASCII
  letter, and equality of two texts up to the case of ASCII letters.
\<close>

definition spec_upper :: "nat \<Rightarrow> nat" where
  "spec_upper c = (if 97 \<le> c \<and> c \<le> 122 then c - 32 else c)"

definition spec_is_letter :: "nat \<Rightarrow> bool" where
  "spec_is_letter c = (65 \<le> c \<and> c \<le> 90 \<or> 97 \<le> c \<and> c \<le> 122)"

definition spec_same_ignoring_case :: "nat list \<Rightarrow> nat list \<Rightarrow> bool" where
  "spec_same_ignoring_case s t = (map spec_upper s = map spec_upper t)"


lemma units_values:
  "units '']'' = [93]" "units ''ESC'' = [69, 83, 67]"
  "units ''ESCAPE'' = [69, 83, 67, 65, 80, 69]"
  "units ''Escape'' = [69, 115, 99, 97, 112, 101]"
  by (simp_all add: units_def charCode_def)

lemma letter_listed: "spec_is_letter c \<Longrightarrow> listed c"
  by (auto simp: spec_is_letter_def listed_def)

lemma letter_upper:
  assumes "spec_is_letter c"
  shows "upper_unit c = [spec_upper c]" "65 \<le> spec_upper c" "spec_upper c \<le> 90"
  using assms by (auto simp: spec_is_letter_def upper_unit_def spec_upper_def)

lemma toUpperCase_letters:
  "\<forall>c\<in>set s. spec_is_letter c \<Longrightarrow> toUpperCase other s = map spec_upper s"
  by (induction s) (simp_all add: letter_listed letter_upper)

lemma caps_are_letters:
  assumes "spec_upper c = x" "65 \<le> x" "x \<le> 90"
  shows "spec_is_letter c"
  using assms by (auto simp: spec_upper_def spec_is_letter_def split: if_splits)

lemma same_as_caps:
  assumes "map spec_upper s = t" "\<forall>x\<in>set t. 65 \<le> x \<and> x \<le> 90"
  shows "toUpperCase other s = t"
proof -
  have "\<forall>c\<in>set s. spec_is_letter c"
  proof
    fix c assume "c \<in> set s"
    then have "spec_upper c \<in> set t" using assms(1) by auto
    with assms(2) show "spec_is_letter c" using caps_are_letters by blast
  qed
  then show ?thesis using assms(1) by (simp add: toUpperCase_letters)
qed




lemma upper_unit_not_Nil [simp]: "upper_unit c \<noteq> []"
  by (simp add: upper_unit_def)

lemma concat_upper_eq_Nil [simp]: "(concat (map upper_unit s) = []) = (s = [])"
  by (cases s) simp_all






lemma controlCode_values:
  "controlCode other (units '']'') = Inr 29"
  "spec_same_ignoring_case letter (units ''ESC'') \<or> spec_same_ignoring_case letter (units ''Escape'')
     \<Longrightarrow> controlCode other letter = Inr 27"
  "spec_is_letter c \<Longrightarrow> controlCode other [c] = Inr (int (spec_upper c) - 64)"
proof -
  show "controlCode other (units '']'') = Inr 29"
    by (simp add: controlCode_def units_values listed_def upper_unit_def)
next
  assume a: "spec_same_ignoring_case letter (units ''ESC'')
      \<or> spec_same_ignoring_case letter (units ''Escape'')"
  have e1: "map spec_upper [69, 83, 67] = [69, 83, 67]"
    and e2: "map spec_upper [69, 115, 99, 97, 112, 101] = [69, 83, 67, 65, 80, 69]"
    by (simp_all add: spec_upper_def)
  from a have "toUpperCase other letter = [69, 83, 67]
      \<or> toUpperCase other letter = [69, 83, 67, 65, 80, 69]"
    using same_as_caps [of letter "[69, 83, 67]" other]
      same_as_caps [of letter "[69, 83, 67, 65, 80, 69]" other] e1 e2
    by (auto simp: spec_same_ignoring_case_def units_values)
  then show "controlCode other letter = Inr 27"
    by (auto simp: controlCode_def units_values)
next
  assume l: "spec_is_letter c"
  have u: "toUpperCase other [c] = [spec_upper c]"
    using toUpperCase_letters [of "[c]" other] l by simp
  have nb: "spec_upper c \<noteq> 93" using letter_upper(3) [OF l] by simp
  have t: "test_A_Z [spec_upper c]"
    using letter_upper(2,3) [OF l] by (simp add: test_A_Z_def)
  show "controlCode other [c] = Inr (int (spec_upper c) - 64)"
    unfolding controlCode_def u units_values
    using nb t by (simp add: charCodeAt0_def)
qed

lemma perform_calls: "perform a i h = (out, h') \<Longrightarrow> calls h' = calls h"
  by (cases a) (auto simp: perform_def)

lemma osascript_calls: "calls (snd (osascript sc h)) = calls h @ [sc]"
proof (cases sc)
  case (TellCurrent a)
  then show ?thesis
    by (auto simp: osascript_def Let_def split: prod.splits dest!: perform_calls)
next
  case (TellByTty lit a m)
  then show ?thesis
    by (auto simp: osascript_def Let_def
        split: prod.splits option.splits list.splits missing.splits dest!: perform_calls)
next
  case (TellAssembled lit a ending)
  then show ?thesis
    by (simp add: osascript_def Let_def)
qed

lemma send_with_calls:
  "controlCode other letter = Inr code \<Longrightarrow>
   calls (snd (send_with script other targetTtyPath letter h))
     = calls h @ [script targetTtyPath code]"
  using osascript_calls [of "script targetTtyPath code" h]
  by (auto simp: send_with_def split: prod.splits sum.splits)

text \<open>
  Claim C4. The code computed by \<open>send\<close> from its letter, whatever the capitals of the
  units that are not listed: the text \<open>]\<close> gives 29; a text equal to \<open>ESC\<close> or to
  \<open>Escape\<close> up to case gives 27; a single ASCII letter, capital or small, gives the
  code of its capital minus 64. The code computed is the one in the script that
  \<open>send\<close> then hands to the bridge, in both variants of the sender.
\<close>

theorem control_code_mapping:
  "controlCode other (units '']'') = Inr 29 \<and>
   (spec_same_ignoring_case letter (units ''ESC'')
      \<or> spec_same_ignoring_case letter (units ''Escape'')
      \<longrightarrow> controlCode other letter = Inr 27) \<and>
   (spec_is_letter c \<longrightarrow> controlCode other [c] = Inr (int (spec_upper c) - 64)) \<and>
   (controlCode other letter = Inr code \<longrightarrow>
      calls (snd (send other targetTtyPath letter h))
        = calls h @ [controlScript targetTtyPath code] \<and>
      calls (snd (send_search other targetTtyPath letter h))
        = calls h @ [controlScript_search targetTtyPath code])"
  using controlCode_values(1) [of other] controlCode_values(2) [of letter other]
    controlCode_values(3) [of c other]
    send_with_calls [of other letter code controlScript targetTtyPath h]
    send_with_calls [of other letter code controlScript_search targetTtyPath h]
  by (simp add: send_def send_search_def)

theorem control_code_mapping_witness:
  "spec_same_ignoring_case (units ''eScApE'') (units ''Escape'') \<and>
   controlCode id (units ''eScApE'') = Inr 27 \<and>
   spec_is_letter 97 \<and> controlCode id [97] = Inr 1 \<and>
   calls (snd (send id None [97] \<lparr>sessions = [], current = 0, calls = []\<rparr>))
     = [TellCurrent (Write (Ascii 1))] \<and>
   calls (snd (send_search id (Some ''/dev/ttys001'') [97]
                 \<lparr>sessions = [], current = 0, calls = []\<rparr>))
     = [TellByTty ''/dev/ttys001'' (Write (Ascii 1)) (RaiseNotFound '' not found'')]"
proof -
  have e: "spec_same_ignoring_case (units ''eScApE'') (units ''Escape'')"
    by code_simp
  have l: "spec_is_letter 97"
    by (simp add: spec_is_letter_def)
  have u: "int (spec_upper 97) - 64 = 1"
    by (simp add: spec_upper_def)
  have sc: "controlScript None 1 = TellCurrent (Write (Ascii 1))"
    "controlScript_search (Some ''/dev/ttys001'') 1
       = TellByTty ''/dev/ttys001'' (Write (Ascii 1)) (RaiseNotFound '' not found'')"
    by code_simp+
  from control_code_mapping [of id "units ''eScApE''" 97] e l u
  have 1: "controlCode id (units ''eScApE'') = Inr 27" and 2: "controlCode id [97] = Inr 1"
    by simp_all
  from control_code_mapping [of id "[97]" 97 1 None
      "\<lparr>sessions = [], current = 0, calls = []\<rparr>"] 2 sc
  have 3: "calls (snd (send id None [97] \<lparr>sessions = [], current = 0, calls = []\<rparr>))
     = [TellCurrent (Write (Ascii 1))]" by simp
  from control_code_mapping [of id "[97]" 97 1 "Some ''/dev/ttys001''"
      "\<lparr>sessions = [], current = 0, calls = []\<rparr>"] 2 sc
  have 4: "calls (snd (send_search id (Some ''/dev/ttys001'') [97]
                 \<lparr>sessions = [], current = 0, calls = []\<rparr>))
     = [TellByTty ''/dev/ttys001'' (Write (Ascii 1)) (RaiseNotFound '' not found'')]" by simp
  show ?thesis using e l 1 2 3 4 by simp
qed




section \<open>Properties of the completion detector\<close>

text \<open>A low sample: a process whose CPU share is below one percent.\<close>

definition spec_is_low :: "probe \<Rightarrow> bool" where
  "spec_is_low p = (case p of Active cpu \<Rightarrow> cpu < 1 | _ \<Rightarrow> False)"

lemma pollLoop_returns_true: "pollLoop below ps = Some (b, n) \<Longrightarrow> b = True"
  by (induction ps arbitrary: below n) (auto split: probe.splits if_splits)

lemma pollLoop_debounce:
  "pollLoop below ps = Some (b, n) \<Longrightarrow>
   1 \<le> n \<and> n \<le> length ps \<and>
   (ps ! (n - 1) = NoProcess \<or> ps ! (n - 1) = ProbeFailed \<or>
    (\<exists>j. 1 \<le> j \<and> j \<le> n \<and> (\<forall>i<j. spec_is_low (ps ! (n - 1 - i))) \<and>
         1000 \<le> (if j = n then below else 0) + 350 * j))"
proof (induction ps arbitrary: below n)
  case Nil
  then show ?case by simp
next
  case (Cons p ps)
  show ?case
  proof (cases p)
    case NoProcess
    with Cons.prems show ?thesis by auto
  next
    case ProbeFailed
    with Cons.prems show ?thesis by auto
  next
    case (Active cpu)
    show ?thesis
    proof (cases "cpu < 1")
      case low: True
      show ?thesis
      proof (cases "1000 \<le> below + 350")
        case True
        with Cons.prems Active low have n: "n = 1" by simp
        have "spec_is_low ((p # ps) ! 0)" using Active low by (simp add: spec_is_low_def)
        with n True show ?thesis
          by (intro conjI disjI2) (auto intro!: exI [of _ 1])
      next
        case False
        with Cons.prems Active low obtain n' where
          n': "pollLoop (below + 350) ps = Some (b, n')" "n = Suc n'"
          by auto
        from Cons.IH [OF n'(1)] have len: "1 \<le> n'" "n' \<le> length ps" and
          alt: "ps ! (n' - 1) = NoProcess \<or> ps ! (n' - 1) = ProbeFailed \<or>
            (\<exists>j. 1 \<le> j \<and> j \<le> n' \<and> (\<forall>i<j. spec_is_low (ps ! (n' - 1 - i))) \<and>
              1000 \<le> (if j = n' then below + 350 else 0) + 350 * j)"
          by blast+
        have idx: "(p # ps) ! (n - 1) = ps ! (n' - 1)" using n'(2) len by (simp add: nth_Cons')
        from alt consider "ps ! (n' - 1) = NoProcess \<or> ps ! (n' - 1) = ProbeFailed"
          | j where "1 \<le> j" "j \<le> n'" "\<forall>i<j. spec_is_low (ps ! (n' - 1 - i))"
              "1000 \<le> (if j = n' then below + 350 else 0) + 350 * j"
          by blast
        then show ?thesis
        proof cases
          case 1
          with idx n'(2) len show ?thesis by auto
        next
          case (2 j)
          have shift: "spec_is_low ((p # ps) ! (n - 1 - i))" if "i < j" for i
          proof -
            from that 2(2) have "n - 1 - i = Suc (n' - 1 - i)" using n'(2) by simp
            then show ?thesis using 2(3) that by simp
          qed
          show ?thesis
          proof (cases "j = n'")
            case True
            have "spec_is_low ((p # ps) ! (n - 1 - i))" if "i < Suc j" for i
            proof (cases "i < j")
              case True
              then show ?thesis by (rule shift)
            next
              case False
              with that have "i = j" by simp
              then have "n - 1 - i = 0" using True n'(2) by simp
              then show ?thesis using Active low by (simp add: spec_is_low_def)
            qed
            moreover have "1000 \<le> (if Suc j = n then below else 0) + 350 * Suc j"
              using 2(4) True n'(2) by simp
            ultimately have "\<exists>j. 1 \<le> j \<and> j \<le> n \<and> (\<forall>i<j. spec_is_low ((p # ps) ! (n - 1 - i))) \<and>
                1000 \<le> (if j = n then below else 0) + 350 * j"
              using True n'(2) by (intro exI [of _ "Suc j"]) simp
            then show ?thesis using n'(2) len by simp
          next
            case False
            then have "1000 \<le> (if j = n then below else 0) + 350 * j"
              using 2(2,4) n'(2) by simp
            then have "\<exists>j. 1 \<le> j \<and> j \<le> n \<and> (\<forall>i<j. spec_is_low ((p # ps) ! (n - 1 - i))) \<and>
                1000 \<le> (if j = n then below else 0) + 350 * j"
              using 2(1,2) shift n'(2) by (intro exI [of _ j]) simp
            then show ?thesis using n'(2) len by simp
          qed
        qed
      qed
    next
      case high: False
      with Cons.prems Active obtain n' where
        n': "pollLoop 0 ps = Some (b, n')" "n = Suc n'"
        by auto
      from Cons.IH [OF n'(1)] have len: "1 \<le> n'" "n' \<le> length ps" and
        alt: "ps ! (n' - 1) = NoProcess \<or> ps ! (n' - 1) = ProbeFailed \<or>
          (\<exists>j. 1 \<le> j \<and> j \<le> n' \<and> (\<forall>i<j. spec_is_low (ps ! (n' - 1 - i))) \<and>
            1000 \<le> (if j = n' then 0 else 0) + 350 * j)"
        by blast+
      have idx: "(p # ps) ! (n - 1) = ps ! (n' - 1)" using n'(2) len by (simp add: nth_Cons')
      from alt consider "ps ! (n' - 1) = NoProcess \<or> ps ! (n' - 1) = ProbeFailed"
        | j where "1 \<le> j" "j \<le> n'" "\<forall>i<j. spec_is_low (ps ! (n' - 1 - i))" "1000 \<le> 350 * j"
        by auto
      then show ?thesis
      proof cases
        case 1
        with idx n'(2) len show ?thesis by auto
      next
        case (2 j)
        have shift: "spec_is_low ((p # ps) ! (n - 1 - i))" if "i < j" for i
        proof -
          from that 2(2) have "n - 1 - i = Suc (n' - 1 - i)" using n'(2) by simp
          then show ?thesis using 2(3) that by simp
        qed
        have "1000 \<le> (if j = n then below else 0) + 350 * j"
          using 2(2,4) n'(2) by simp
        then have "\<exists>j. 1 \<le> j \<and> j \<le> n \<and> (\<forall>i<j. spec_is_low ((p # ps) ! (n - 1 - i))) \<and>
            1000 \<le> (if j = n then below else 0) + 350 * j"
          using 2(1,2) shift n'(2) by (intro exI [of _ j]) simp
        then show ?thesis using n'(2) len by simp
      qed
    qed
  qed
qed


lemma pollLoop_three_low:
  assumes "pollLoop 0 ps = Some (b, n)"
  shows "1 \<le> n \<and> n \<le> length ps \<and>
     (ps ! (n - 1) = NoProcess \<or> ps ! (n - 1) = ProbeFailed \<or>
      (3 \<le> n \<and> spec_is_low (ps ! (n - 3)) \<and> spec_is_low (ps ! (n - 2)) \<and> spec_is_low (ps ! (n - 1))))"
proof -
  from pollLoop_debounce [OF assms] have len: "1 \<le> n" "n \<le> length ps" and
    alt: "ps ! (n - 1) = NoProcess \<or> ps ! (n - 1) = ProbeFailed \<or>
      (\<exists>j. 1 \<le> j \<and> j \<le> n \<and> (\<forall>i<j. spec_is_low (ps ! (n - 1 - i))) \<and> 1000 \<le> 350 * j)"
    by auto
  from alt consider "ps ! (n - 1) = NoProcess \<or> ps ! (n - 1) = ProbeFailed"
    | j where "j \<le> n" "\<forall>i<j. spec_is_low (ps ! (n - 1 - i))" "1000 \<le> 350 * j"
    by blast
  then show ?thesis
  proof cases
    case 1
    with len show ?thesis by blast
  next
    case (2 j)
    from 2(3) have j: "3 \<le> j" by arith
    with 2(2) have "spec_is_low (ps ! (n - 1 - 0))" "spec_is_low (ps ! (n - 1 - 1))" "spec_is_low (ps ! (n - 1 - 2))"
      by (metis less_le_trans zero_less_numeral, metis less_le_trans one_less_numeral_iff semiring_norm(77),
          metis less_le_trans lessI numeral_3_eq_3 numeral_2_eq_2)
    moreover have "n - 1 - 1 = n - 2" "n - 1 - 2 = n - 3" by simp_all
    ultimately show ?thesis using len j 2(1) by simp
  qed
qed

lemma isWaiting_opened:
  "isWaitingForUserInput True ps = Some (c, n) \<Longrightarrow> \<exists>b. pollLoop 0 ps = Some (b, n)"
  by (auto simp: isWaitingForUserInput_def split: option.splits prod.splits)

text \<open>
  Claim C3. When the detector, having opened the tty, returns after \<open>n\<close> probes, the
  last probe reported no process (or failed, which the loop treats alike), or \<open>n\<close> is
  at least three and the last three probes were low samples: readiness by low CPU needs
  three low samples in a row, 350 ms counted for each against the window of 1000 ms.
  Three low samples from the start give readiness at the third. A sample of one percent
  or more sets the accumulated time back to zero, and a probe reporting no process ends
  the loop at once.
\<close>

theorem detector_debounce:
  "(isWaitingForUserInput True ps = Some (c, n) \<longrightarrow>
      1 \<le> n \<and> n \<le> length ps \<and>
      (ps ! (n - 1) = NoProcess \<or> ps ! (n - 1) = ProbeFailed \<or>
       (3 \<le> n \<and> spec_is_low (ps ! (n - 3)) \<and> spec_is_low (ps ! (n - 2)) \<and> spec_is_low (ps ! (n - 1))))) \<and>
   (c1 < 1 \<and> c2 < 1 \<and> c3 < 1 \<longrightarrow>
      isWaitingForUserInput True (Active c1 # Active c2 # Active c3 # rest) = Some (Returns True, 3)) \<and>
   (1 \<le> cpu \<longrightarrow>
      pollLoop below (Active cpu # rest) = map_option (apsnd Suc) (pollLoop 0 rest)) \<and>
   pollLoop below (NoProcess # rest) = Some (True, 1)"
proof -
  have 1: "1 \<le> n \<and> n \<le> length ps \<and>
      (ps ! (n - 1) = NoProcess \<or> ps ! (n - 1) = ProbeFailed \<or>
       (3 \<le> n \<and> spec_is_low (ps ! (n - 3)) \<and> spec_is_low (ps ! (n - 2)) \<and> spec_is_low (ps ! (n - 1))))"
    if "isWaitingForUserInput True ps = Some (c, n)"
  proof -
    from that obtain b where "pollLoop 0 ps = Some (b, n)" using isWaiting_opened by blast
    then show ?thesis by (rule pollLoop_three_low)
  qed
  have 2: "isWaitingForUserInput True (Active c1 # Active c2 # Active c3 # rest) = Some (Returns True, 3)"
    if "c1 < 1 \<and> c2 < 1 \<and> c3 < 1"
    using that by (simp add: isWaitingForUserInput_def catch_return_def finally_return_def)
  have 3: "pollLoop below (Active cpu # rest) = map_option (apsnd Suc) (pollLoop 0 rest)"
    if "1 \<le> cpu"
    using that by simp
  have 4: "pollLoop below (NoProcess # rest) = Some (True, 1)" by simp
  from 1 2 3 4 show ?thesis by blast
qed

theorem detector_debounce_witness:
  "isWaitingForUserInput True [Active 5, Active 0.5, Active 0.5, Active 0.5] = Some (Returns True, 4) \<and>
   spec_is_low ([Active 5, Active 0.5, Active 0.5, Active 0.5] ! (4 - 3)) \<and>
   isWaitingForUserInput True [Active 5, Active 0.5, Active 0.5] = None \<and>
   isWaitingForUserInput True [Active 5, Active 0.5, Active 5, Active 0.5, Active 0.5, Active 0.5]
     = Some (Returns True, 6) \<and>
   (0.5::real) < 1 \<and>
   isWaitingForUserInput True [Active 0.5, Active 0.5, Active 0.5, Active 0.5]
     = Some (Returns True, 3) \<and>
   (1::real) \<le> 5 \<and> pollLoop 700 [Active 5, Active 0.5] = None"
proof -
  have a: "isWaitingForUserInput True [Active 5, Active 0.5, Active 0.5, Active 0.5] = Some (Returns True, 4)"
    by (simp add: isWaitingForUserInput_def catch_return_def finally_return_def)
  have b: "isWaitingForUserInput True [Active 5, Active 0.5, Active 0.5] = None"
    by (simp add: isWaitingForUserInput_def)
  have c: "isWaitingForUserInput True [Active 5, Active 0.5, Active 5, Active 0.5, Active 0.5, Active 0.5]
     = Some (Returns True, 6)"
    by (simp add: isWaitingForUserInput_def catch_return_def finally_return_def)
  have l: "(0.5::real) < 1 \<and> (0.5::real) < 1 \<and> (0.5::real) < 1" and h: "(1::real) \<le> 5"
    by simp_all
  note t = detector_debounce [of "[Active 5, Active 0.5, Active 0.5, Active 0.5]" "Returns True" 4
      "0.5" "0.5" "0.5" "[Active 0.5]" 5 700]
  from t a have 1: "spec_is_low ([Active 5, Active 0.5, Active 0.5, Active 0.5] ! (4 - 3))"
    by simp
  from t l have 2: "isWaitingForUserInput True [Active 0.5, Active 0.5, Active 0.5, Active 0.5]
      = Some (Returns True, 3)"
    by blast
  from t h have "pollLoop 700 [Active 5, Active 0.5] = map_option (apsnd Suc) (pollLoop 0 [Active 0.5])"
    by blast
  then have 3: "pollLoop 700 [Active 5, Active 0.5] = None" by simp
  from a b c 1 2 3 show ?thesis by simp
qed

text \<open>
  Claim C10. Whenever \<open>isWaitingForUserInput\<close> returns, it returns \<open>true\<close>: each
  \<open>return\<close> of the polling loop gives \<open>true\<close>, a tty that does not open gives
  \<open>true\<close> without a probe, and the \<open>finally\<close> block replaces every outcome by
  \<open>true\<close>. So the loop of \<open>executeCommand\<close> that waits while the result is
  \<open>false\<close> never runs its body, and ends at the first call that returns.
\<close>

theorem waiting_always_true:
  "(isWaitingForUserInput opens probes = Some (c, n) \<longrightarrow> c = Returns True) \<and>
   (pollLoop below probes = Some (b, n) \<longrightarrow> b = True) \<and>
   isWaitingForUserInput False probes = Some (Returns True, 0) \<and>
   (waitForPrompt env = Some k \<longrightarrow> k = 0) \<and>
   (isWaitingForUserInput opens probes \<noteq> None \<longrightarrow>
      waitForPrompt ((opens, probes) # env) = Some 0)"
proof (intro conjI impI)
  assume "isWaitingForUserInput opens probes = Some (c, n)"
  then show "c = Returns True"
    by (auto simp: isWaitingForUserInput_def finally_return_def split: option.splits if_splits)
next
  assume "pollLoop below probes = Some (b, n)"
  then show "b = True" by (rule pollLoop_returns_true)
next
  show "isWaitingForUserInput False probes = Some (Returns True, 0)"
    by (simp add: isWaitingForUserInput_def finally_return_def)
next
  assume "waitForPrompt env = Some k"
  then show "k = 0"
  proof (induction env arbitrary: k)
    case Nil
    then show ?case by simp
  next
    case (Cons e env)
    obtain opens probes where e: "e = (opens, probes)" by (cases e)
    show ?case
    proof (cases "isWaitingForUserInput opens probes")
      case None
      with Cons.prems e show ?thesis by simp
    next
      case (Some r)
      then obtain c n where r: "r = (c, n)" by (cases r)
      with Some have "c = Returns True"
        by (auto simp: isWaitingForUserInput_def finally_return_def split: option.splits if_splits)
      with Cons.prems e Some r show ?thesis by simp
    qed
  qed
next
  assume "isWaitingForUserInput opens probes \<noteq> None"
  then obtain c n where r: "isWaitingForUserInput opens probes = Some (c, n)" by auto
  then have "c = Returns True"
    by (auto simp: isWaitingForUserInput_def finally_return_def split: option.splits if_splits)
  with r show "waitForPrompt ((opens, probes) # env) = Some 0" by simp
qed

theorem waiting_always_true_witness:
  "isWaitingForUserInput True [Active 50, ProbeFailed] = Some (Returns True, 2) \<and>
   pollLoop 0 [Active 50, ProbeFailed] = Some (True, 2) \<and>
   isWaitingForUserInput False [Active 50, ProbeFailed] = Some (Returns True, 0) \<and>
   waitForPrompt [(True, [Active 50, ProbeFailed])] = Some 0"
proof -
  have a: "isWaitingForUserInput True [Active 50, ProbeFailed] = Some (Returns True, 2)"
    by (simp add: isWaitingForUserInput_def catch_return_def finally_return_def)
  have b: "pollLoop 0 [Active 50, ProbeFailed] = Some (True, 2)"
    by simp
  from a have n: "isWaitingForUserInput True [Active 50, ProbeFailed] \<noteq> None" by simp
  note t = waiting_always_true [of True "[Active 50, ProbeFailed]" "Returns True" 2 0 True "[]" 0]
  from t n have w: "waitForPrompt [(True, [Active 50, ProbeFailed])] = Some 0" by blast
  from t have f: "isWaitingForUserInput False [Active 50, ProbeFailed] = Some (Returns True, 0)"
    by blast
  from a b f w show ?thesis by simp
qed

section \<open>Properties of the buffer reader\<close>










text \<open>
  Texts in which every run of base64 characters is shorter than 100, and texts in which
  the inline-image pattern matches nowhere.
\<close>

definition spec_short_runs :: "string \<Rightarrow> bool" where
  "spec_short_runs xs = (\<forall>ys \<in> set (suffixes xs). length (takeWhile is_b64 ys) < 100)"

definition spec_imgcat_free :: "string \<Rightarrow> bool" where
  "spec_imgcat_free xs = (\<forall>ys \<in> set (suffixes xs). match_imgcat ys = None)"

lemma short_runs_Cons: "spec_short_runs (c # cs) \<Longrightarrow> spec_short_runs cs"
  by (auto simp: spec_short_runs_def suffix_Cons)

lemma short_runs_head: "spec_short_runs xs \<Longrightarrow> length (takeWhile is_b64 xs) < 100"
  by (simp add: spec_short_runs_def)

lemma imgcat_free_Cons: "spec_imgcat_free (c # cs) \<Longrightarrow> spec_imgcat_free cs"
  by (auto simp: spec_imgcat_free_def suffix_Cons)

lemma imgcat_free_head: "spec_imgcat_free xs \<Longrightarrow> match_imgcat xs = None"
  by (simp add: spec_imgcat_free_def)

lemma no_escape_imgcat_free: "ESC \<notin> set xs \<Longrightarrow> spec_imgcat_free xs"
proof -
  assume a: "ESC \<notin> set xs"
  have "match_imgcat ys = None" if "suffix ys xs" for ys
  proof (cases ys)
    case Nil
    then show ?thesis by (simp add: match_imgcat_def)
  next
    case (Cons y ys')
    with that a have "y \<noteq> ESC" using set_mono_suffix by fastforce
    with Cons show ?thesis by (simp add: match_imgcat_def)
  qed
  then show ?thesis by (simp add: spec_imgcat_free_def)
qed

lemma base64_short_unchanged:
  "spec_short_runs xs \<Longrightarrow> replace_matches match_base64 r xs = xs"
proof (induction xs)
  case Nil
  then show ?case by simp
next
  case (Cons c cs)
  from short_runs_head [OF Cons.prems] have "match_base64 (c # cs) = None"
    by (simp add: match_base64_def Let_def)
  with Cons.IH short_runs_Cons [OF Cons.prems] show ?case by simp
qed

lemma base64_prefix_unchanged:
  "spec_short_runs pre \<Longrightarrow> pre = [] \<or> \<not> is_b64 (last pre) \<Longrightarrow>
   replace_matches match_base64 r (pre @ rest) = pre @ replace_matches match_base64 r rest"
proof (induction pre)
  case Nil
  then show ?case by simp
next
  case (Cons c cs)
  from Cons.prems(2) have "\<not> is_b64 (last (c # cs))" by simp
  then have "\<exists>x \<in> set (c # cs). \<not> is_b64 x" using last_in_set [of "c # cs"] by blast
  then have "takeWhile is_b64 ((c # cs) @ rest) = takeWhile is_b64 (c # cs)"
    by (metis takeWhile_append1 takeWhile_eq_all_conv takeWhile_append2 append_Nil2)
  with short_runs_head [OF Cons.prems(1)] have m: "match_base64 ((c # cs) @ rest) = None"
    by (simp add: match_base64_def Let_def)
  have "cs = [] \<or> \<not> is_b64 (last cs)" using Cons.prems(2) by (auto split: if_splits)
  with Cons.IH short_runs_Cons [OF Cons.prems(1)] m show ?case by simp
qed

lemma base64_run_match:
  assumes "100 \<le> length run" "\<forall>c\<in>set run. is_b64 c"
  shows "match_base64 (run @ ''=='' @ post) = Some (length run + 2)"
proof -
  have eq: "\<not> is_b64 (CHR ''='')" by (simp add: is_b64_def charCode_def)
  have tw: "takeWhile is_b64 (run @ ''=='' @ post) = run"
    using assms(2) eq by (simp add: takeWhile_append2)
  then show ?thesis using assms(1) by (simp add: match_base64_def Let_def)
qed

lemma base64_run_replaced:
  assumes "100 \<le> length run" "\<forall>c\<in>set run. is_b64 c"
  shows "replace_matches match_base64 r (run @ ''=='' @ post) = r @ replace_matches match_base64 r post"
proof -
  from assms(1) obtain c cs where run: "run = c # cs" by (cases run) auto
  have m: "match_base64 (c # cs @ ''=='' @ post) = Some (Suc (Suc (Suc (length cs))))"
    using base64_run_match [OF assms, of post] run by simp
  have "drop (Suc (Suc (length cs))) (cs @ ''=='' @ post) = post" by simp
  with m run show ?thesis by simp
qed

lemma imgcat_free_unchanged:
  "spec_imgcat_free xs \<Longrightarrow> replace_matches match_imgcat r xs = xs"
proof (induction xs)
  case Nil
  then show ?case by simp
next
  case (Cons c cs)
  from imgcat_free_head [OF Cons.prems] have "match_imgcat (c # cs) = None" .
  with Cons.IH imgcat_free_Cons [OF Cons.prems] show ?case by simp
qed

text \<open>
  Claim C9, amended. A run of at least 100 base64 characters (150 in the claim) followed
  by \<open>==\<close>, with a text before it that does not end in a base64 character, is
  replaced together with the padding by the one placeholder, and the texts before and
  after, whose base64 runs are all shorter than 100, stay as they are, provided the
  inline-image pattern matches nowhere in the result; where it matches, the second
  replacement of the filter rewrites that part as well.
\<close>

theorem base64_run_filtered:
  assumes "100 \<le> length run" and "\<forall>c\<in>set run. is_b64 c"
    and "spec_short_runs pre" and "pre = [] \<or> \<not> is_b64 (last pre)" and "spec_short_runs post"
    and "spec_imgcat_free (pre @ ''[BASE64_IMAGE_CONTENT_FILTERED]'' @ post)"
  shows "filterBase64Content (pre @ run @ ''=='' @ post)
           = pre @ ''[BASE64_IMAGE_CONTENT_FILTERED]'' @ post"
proof -
  have "replace_matches match_base64 ''[BASE64_IMAGE_CONTENT_FILTERED]'' (pre @ run @ ''=='' @ post)
      = pre @ ''[BASE64_IMAGE_CONTENT_FILTERED]'' @ post"
    using base64_prefix_unchanged [OF assms(3,4)] base64_run_replaced [OF assms(1,2)]
      base64_short_unchanged [OF assms(5)]
    by simp
  then show ?thesis
    using imgcat_free_unchanged [OF assms(6)] by (simp add: filterBase64Content_def)
qed

theorem base64_run_filtered_witness:
  "filterBase64Content (''QUJD: '' @ replicate 150 (CHR ''A'') @ ''=='' @ '' end QUJD'')
     = ''QUJD: '' @ ''[BASE64_IMAGE_CONTENT_FILTERED]'' @ '' end QUJD''"
proof -
  have 1: "100 \<le> length (replicate 150 (CHR ''A''))" by simp
  have 2: "\<forall>c\<in>set (replicate 150 (CHR ''A'')). is_b64 c"
    by (simp add: is_b64_def charCode_def)
  have 3: "spec_short_runs ''QUJD: ''" by code_simp
  have 4: "''QUJD: '' = [] \<or> \<not> is_b64 (last ''QUJD: '')"
    by (simp add: is_b64_def charCode_def)
  have 5: "spec_short_runs '' end QUJD''" by code_simp
  have 6: "spec_imgcat_free (''QUJD: '' @ ''[BASE64_IMAGE_CONTENT_FILTERED]'' @ '' end QUJD'')"
    by (rule no_escape_imgcat_free) simp
  show ?thesis by (rule base64_run_filtered [OF 1 2 3 4 5 6])
qed

text \<open>
  Claim C9 as stated fails where the surrounding text is an inline-image prefix: the
  second replacement takes the prefix, the placeholder of the run and the line break
  together, so the text before the run does not stay and the run's placeholder is gone.
\<close>

theorem base64_run_counterexample:
  "filterBase64Content
     ((ESC # '']1337;File=a:'') @ replicate 150 (CHR ''A'') @ ''=='' @ [NLN])
     = ''[IMGCAT_PREFIX_FILTERED]'' @ [NLN] \<and>
   filterBase64Content
     ((ESC # '']1337;File=a:'') @ replicate 150 (CHR ''A'') @ ''=='' @ [NLN])
     \<noteq> (ESC # '']1337;File=a:'') @ ''[BASE64_IMAGE_CONTENT_FILTERED]'' @ [NLN]"
  by code_simp

section \<open>An unknown device path\<close>

text \<open>
  Claim C2 fails for the buffer reader. With no session on \<open>/dev/ttys999\<close>, the
  script of \<open>retrieveBuffer\<close> returns the not-found message as its result, so the
  reader and the tool \<open>read_terminal_output\<close> deliver that message as the buffer's
  text, while the dispatch script raises the message as an error and \<open>send\<close>, on
  the script that writes the search out in full, fails with \<open>SessionNotFound\<close>
  carrying the path.
\<close>

theorem unknown_path_read_succeeds:
  "fst (retrieveBuffer (Some ''/dev/ttys999'') example_app)
     = Inr ''Session with TTY /dev/ttys999 not found'' \<and>
   fst (read_terminal_output (Some 5) (Some ''/dev/ttys999'') None example_app)
     = Inr ''Session with TTY /dev/ttys999 not found'' \<and>
   fst (osascript (commandScript (Some ''/dev/ttys999'') ''ls'') example_app)
     = Inl ''Session with TTY /dev/ttys999 not found'' \<and>
   fst (send_search id (Some ''/dev/ttys999'') (units ''c'') example_app)
     = Inl (SessionNotFound
         ''Failed to send control character: Session with TTY /dev/ttys999 not found'')"
  by code_simp

section \<open>The session addressed when no path is given\<close>


lemma escapeTty_Nil [simp]: "escapeTty [] = []"
  by (simp add: escapeTty_def)









lemma targets_refl [simp]: "spec_targets r h h"
  by (simp add: spec_targets_def)




lemma snd_of_result [simp]: "snd (of_result m) = snd m"
  by (simp add: of_result_def split: prod.splits sum.splits)



lemma finished_simps [simp]:
  "finished (Finished x)" "\<not> finished (Thrown e)" "\<not> finished StillWaiting"
  "\<not> finished NotFollowed"
  by (simp_all add: finished_def)

lemma fst_catching_finished [simp]:
  "finished (fst (catching m handler)) = finished (fst m)"
  by (simp add: catching_def finished_def split: prod.splits outcome.splits)

lemma fst_of_result_followed [simp]: "fst (of_result m) \<noteq> NotFollowed"
  by (simp add: of_result_def split: prod.splits sum.splits)
















lemma awaitPrompt_same [simp]:
  "snd (awaitPrompt env h) = h" "fst (awaitPrompt env h) \<noteq> NotFollowed"
  by (simp_all add: awaitPrompt_def split: option.splits)





lemma sh_quoted_plain: "SQT \<notin> set s \<Longrightarrow> sh_quoted s = Some s"
  by (induction s) auto

lemma sh_quoted_append:
  "SQT \<notin> set xs \<Longrightarrow>
   sh_quoted (xs @ rest) = (case sh_quoted rest of None \<Rightarrow> None | Some r \<Rightarrow> Some (xs @ r))"
  by (induction xs) (auto split: option.splits)

lemma sh_quoted_apostrophe:
  "sh_quoted ([SQT, BSL, SQT, SQT] @ rest) = map_option ((#) SQT) (sh_quoted rest)"
  by simp

lemma hex_digit_plain: "hex_digit d \<noteq> SQT"
  using hex_digit_lower [of d] by auto

lemma spec_hex4_plain: "SQT \<notin> set (spec_hex4 n)"
  using hex_digit_plain [of "n div 4096"] hex_digit_plain [of "n div 256"]
    hex_digit_plain [of "n div 16"] hex_digit_plain [of n]
  by (simp add: spec_hex4_def)

lemma sh_quoted_escape_char:
  assumes "sh_quoted rest \<noteq> None"
  shows "sh_quoted (spec_escape_char c @ rest) \<noteq> None"
proof (cases "c = SQT")
  case True
  then have "spec_escape_char c = [SQT, BSL, SQT, SQT]" by (simp add: spec_escape_char_def)
  with assms show ?thesis by (simp only: sh_quoted_apostrophe) simp
next
  case False
  then have "SQT \<notin> set (spec_escape_char c)"
    using spec_hex4_plain [of "charCode c"] by (auto simp: spec_escape_char_def)
  with assms show ?thesis by (auto simp: sh_quoted_append)
qed

lemma sh_quoted_single_line:
  "sh_quoted rest \<noteq> None \<Longrightarrow> sh_quoted (single_line_passes s @ rest) \<noteq> None"
  by (induction s) (simp_all add: single_line_passes_Cons sh_quoted_escape_char)

lemma split_first_set:
  "split_first s = (l, ls) \<Longrightarrow> c \<in> set l \<or> (\<exists>x\<in>set ls. c \<in> set x) \<Longrightarrow> c \<in> set s"
  by (induction s arbitrary: l ls) (auto split: prod.splits if_splits)

lemma escapeAppleScriptString_plain:
  "SQT \<notin> set l \<Longrightarrow> SQT \<notin> set (escapeAppleScriptString l)"
  by (induction l) (auto simp: escapeAppleScriptString_Cons esc1_def)

lemma prepareMultilineCommand_plain:
  assumes "SQT \<notin> set str"
  shows "SQT \<notin> set (prepareMultilineCommand str)"
proof -
  obtain l ls where sp: "split_first str = (l, ls)" by (cases "split_first str")
  have "SQT \<notin> set l" "\<forall>x\<in>set ls. SQT \<notin> set x"
    using split_first_set [OF sp, of SQT] assms by auto
  then show ?thesis
    by (auto simp: prepareMultilineCommand_def sp escapeAppleScriptString_plain)
qed

lemma passes_shell_cases:
  assumes "\<not> includes_newline command \<or> SQT \<notin> set command"
  shows "passes_shell command"
proof (cases "includes_newline command")
  case True
  with assms have "SQT \<notin> set (''('' @ prepareMultilineCommand command @ '')'')"
    by (simp add: prepareMultilineCommand_plain)
  from sh_quoted_plain [OF this]
  have "sh_quoted (''('' @ prepareMultilineCommand command @ '')'') \<noteq> None"
    by simp
  with True show ?thesis
    by (simp add: passes_shell_def scriptCommand_def sh_action_def escapeForAppleScript_def)
next
  case False
  have "sh_quoted [DQT] \<noteq> None" by simp
  then have "sh_quoted (single_line_passes command @ [DQT]) \<noteq> None"
    by (rule sh_quoted_single_line)
  then have "sh_quoted ([DQT] @ single_line_passes command @ [DQT]) \<noteq> None"
    by simp
  with False show ?thesis
    by (simp add: passes_shell_def scriptCommand_def sh_action_def escapeForAppleScript_def
        single_line_passes_def)
qed


lemma handed_over_current:
  "handed_over (TellCurrent a) = Some sc' \<Longrightarrow> addressed sc' = Some Current"
  by (auto simp: handed_over_def addressed_def)


lemma sh_action_plain [simp]: "sh_action GetIsProcessing = Some GetIsProcessing"
  by (simp add: sh_action_def)


















end
